theory Spec2Isabelle
  imports Main
begin

section \<open>JavaScript values\<close>

text \<open>
  The values an argument object can hold: data. Numbers are the integer-valued ones
  (\<open>skip\<close> and \<open>top\<close> are integers). An array is the list of its elements. An object is
  the list of its own enumerable string-keyed properties in the order they were created.
\<close>

datatype jsval =
    JUndefined
  | JNull
  | JBool bool
  | JNum int
  | JStr string
  | JArr "jsval list"
  | JObj "(string \<times> jsval) list"

datatype error = TypeError

text \<open>The condition of an \<open>if (v)\<close>: \<open>undefined\<close>, \<open>null\<close>, \<open>false\<close>, \<open>0\<close> and the
  empty string are falsy, every array and every object is truthy.\<close>

fun truthy :: "jsval \<Rightarrow> bool" where
  "truthy JUndefined = False"
| "truthy JNull = False"
| "truthy (JBool b) = b"
| "truthy (JNum n) = (n \<noteq> 0)"
| "truthy (JStr s) = (s \<noteq> [])"
| "truthy (JArr xs) = True"
| "truthy (JObj ps) = True"

subsection \<open>String forms\<close>

definition digit_char :: "nat \<Rightarrow> char" where
  "digit_char d = ''0123456789'' ! d"

fun nat_digits :: "nat \<Rightarrow> string" where
  "nat_digits n = (if n < 10 then [digit_char n] else nat_digits (n div 10) @ [digit_char (n mod 10)])"

declare nat_digits.simps [simp del]

text \<open>
  The decimal form of an integer. It is what the code prints for a safe integer, one of
  absolute value at most \<open>2^53 - 1\<close>; beyond that the code prints the shortest digits that
  give the same double, and an exponent from \<open>10^21\<close> on.
\<close>

definition NumberToString :: "int \<Rightarrow> string" where
  "NumberToString i = (if i < 0 then CHR ''-'' # nat_digits (nat (- i)) else nat_digits (nat i))"

text \<open>
  What a template literal \<open>`${v}`\<close> puts for \<open>v\<close>. An array prints as
  \<open>Array.prototype.join\<close> with a comma does: \<open>undefined\<close> and \<open>null\<close> elements print as
  nothing, the others by their own string form. An object prints by the \<open>toString\<close> of
  \<open>Object.prototype\<close>; this is the string form of an object that does not override it
  (see \<open>plain\<close> below for the values on which this function is the code's).
\<close>

fun ToString :: "jsval \<Rightarrow> string"
  and ArrayJoin :: "jsval list \<Rightarrow> string" where
  "ToString JUndefined = ''undefined''"
| "ToString JNull = ''null''"
| "ToString (JBool b) = (if b then ''true'' else ''false'')"
| "ToString (JNum n) = NumberToString n"
| "ToString (JStr s) = s"
| "ToString (JArr xs) = ArrayJoin xs"
| "ToString (JObj ps) = ''[object Object]''"
| "ArrayJoin [] = []"
| "ArrayJoin [x] = (if x = JUndefined \<or> x = JNull then [] else ToString x)"
| "ArrayJoin (x # y # ys) =
     (if x = JUndefined \<or> x = JNull then [] else ToString x) @ '','' @ ArrayJoin (y # ys)"

subsection \<open>Property access\<close>

text \<open>
  \<open>item.name\<close> for the names the builder reads (\<open>key\<close> and \<open>value\<close>), which no built-in
  prototype defines: reading a property of \<open>undefined\<close> or \<open>null\<close> raises a TypeError, a
  primitive or an array has no such property, an object gives its own property or
  \<open>undefined\<close>.
\<close>

fun Get :: "jsval \<Rightarrow> string \<Rightarrow> error + jsval" where
  "Get JUndefined name = Inl TypeError"
| "Get JNull name = Inl TypeError"
| "Get (JObj ps) name = Inr (case map_of ps name of None \<Rightarrow> JUndefined | Some v \<Rightarrow> v)"
| "Get v name = Inr JUndefined"

section \<open>Argument objects\<close>

text \<open>
  \<open>QueryArgs\<close>: an argument object, as the list of its own properties in the order the
  caller wrote them.
\<close>

type_synonym QueryArgs = "(string \<times> jsval) list"

text \<open>\<open>arg.name\<close> on an argument object.\<close>

definition property :: "QueryArgs \<Rightarrow> string \<Rightarrow> jsval" where
  "property arg name = (case map_of arg name of None \<Rightarrow> JUndefined | Some v \<Rightarrow> v)"

text \<open>
  \<open>Object.entries(arg)\<close> lists the own properties in the order of the language's
  \<open>OrdinaryOwnPropertyKeys\<close>: first the keys that are array indices (the canonical
  decimal form of an integer from 0 to \<open>2^32 - 2\<close>) in ascending numeric order, then
  every other key in the order of creation.
\<close>

definition is_digit :: "char \<Rightarrow> bool" where
  "is_digit c = (48 \<le> (of_char c :: nat) \<and> (of_char c :: nat) \<le> 57)"

definition string_to_nat :: "string \<Rightarrow> nat" where
  "string_to_nat s = foldl (\<lambda>n c. 10 * n + (of_char c - 48)) 0 s"

definition is_array_index :: "string \<Rightarrow> bool" where
  "is_array_index k =
     (list_all is_digit k \<and> (k = ''0'' \<or> (k \<noteq> [] \<and> hd k \<noteq> CHR ''0''))
      \<and> string_to_nat k \<le> 4294967294)"

definition Object_entries :: "QueryArgs \<Rightarrow> (string \<times> jsval) list" where
  "Object_entries arg =
     sort_key (\<lambda>(k, v). string_to_nat k) (filter (\<lambda>(k, v). is_array_index k) arg)
     @ filter (\<lambda>(k, v). \<not> is_array_index k) arg"

section \<open>The query builder\<close>

definition SKIP_ARG :: string where "SKIP_ARG = ''$skip=''"
definition TOP_ARG :: string where "TOP_ARG = ''$top=''"
definition INLINECOUNT_ARG :: string where "INLINECOUNT_ARG = ''$inlinecount=''"
definition EXPAND_ARG :: string where "EXPAND_ARG = ''$expand=''"
definition ORDERBY_ARG :: string where "ORDERBY_ARG = ''$orderBy=''"

definition DEFAULT_KEYS :: "string set" where
  "DEFAULT_KEYS = {''skip'', ''top'', ''inline'', ''expand'', ''orderBy'', ''inlinecount''}"

definition isDefaultKey :: "string \<Rightarrow> bool" where
  "isDefaultKey key = (key \<in> DEFAULT_KEYS)"

record QueryBuilder =
  arguments :: "QueryArgs list"
  joinedArgs :: "string list"

text \<open>\<open>new QueryBuilder()\<close>.\<close>

definition new_QueryBuilder :: QueryBuilder where
  "new_QueryBuilder = \<lparr>arguments = [], joinedArgs = []\<rparr>"

text \<open>
  A method of the builder either returns, \<open>Inr this\<close> with the builder as it is then, or
  raises, \<open>Inl (e, this)\<close> with the builder as the exception leaves it.
\<close>

type_synonym outcome = "(error \<times> QueryBuilder) + QueryBuilder"

definition after :: "outcome \<Rightarrow> QueryBuilder" where
  "after r = (case r of Inl (e, this) \<Rightarrow> this | Inr this \<Rightarrow> this)"

text \<open>One statement after another: the second runs when the first has not raised.\<close>

definition andThen :: "outcome \<Rightarrow> (QueryBuilder \<Rightarrow> outcome) \<Rightarrow> outcome" where
  "andThen r f = (case r of Inl x \<Rightarrow> Inl x | Inr this \<Rightarrow> f this)"

text \<open>\<open>for (const el of xs) body\<close>.\<close>

fun forOf :: "'a list \<Rightarrow> (QueryBuilder \<Rightarrow> 'a \<Rightarrow> outcome) \<Rightarrow> QueryBuilder \<Rightarrow> outcome" where
  "forOf [] body this = Inr this"
| "forOf (x # xs) body this = andThen (body this x) (forOf xs body)"

text \<open>\<open>this.joinedArgs.push(fragment)\<close>.\<close>

definition push :: "QueryBuilder \<Rightarrow> string \<Rightarrow> QueryBuilder" where
  "push this fragment = this\<lparr>joinedArgs := joinedArgs this @ [fragment]\<rparr>"

definition isAttributeArg :: "jsval \<Rightarrow> error + bool" where
  "isAttributeArg item =
     (case Get item ''key'' of
        Inl e \<Rightarrow> Inl e
      | Inr k \<Rightarrow>
          if k \<noteq> JUndefined
          then (case Get item ''value'' of Inl e \<Rightarrow> Inl e | Inr v \<Rightarrow> Inr (v \<noteq> JUndefined))
          else Inr False)"

definition handleAttributeArgument :: "QueryBuilder \<Rightarrow> jsval \<Rightarrow> outcome" where
  "handleAttributeArgument this arg =
     (case Get arg ''key'' of
        Inl e \<Rightarrow> Inl (e, this)
      | Inr k \<Rightarrow>
          (case Get arg ''value'' of
             Inl e \<Rightarrow> Inl (e, this)
           | Inr v \<Rightarrow> Inr (push this (ToString k @ ''='' @ ToString v))))"

definition handleArrayArg :: "QueryBuilder \<Rightarrow> string \<Rightarrow> jsval list \<Rightarrow> outcome" where
  "handleArrayArg this key values =
     (if length values \<le> 0 then Inr this
      else
        (case isAttributeArg (values ! 0) of
           Inl e \<Rightarrow> Inl (e, this)
         | Inr True \<Rightarrow> forOf values handleAttributeArgument this
         | Inr False \<Rightarrow>
             forOf values (\<lambda>this el. Inr (push this (key @ ''='' @ ToString el))) this))"

text \<open>The body of the loop of \<open>parseAdditionalArgs\<close>, for the entry \<open>[k, v]\<close>.\<close>

definition parseAdditionalArgs_body :: "QueryBuilder \<Rightarrow> string \<times> jsval \<Rightarrow> outcome" where
  "parseAdditionalArgs_body this kv =
     (case kv of (k, v) \<Rightarrow>
        if isDefaultKey k \<or> v = JUndefined then Inr this
        else
          (case v of
             JArr values \<Rightarrow> handleArrayArg this k values
           | _ \<Rightarrow>
               (case isAttributeArg v of
                  Inl e \<Rightarrow> Inl (e, this)
                | Inr True \<Rightarrow> handleAttributeArgument this v
                | Inr False \<Rightarrow> Inr (push this (k @ ''='' @ ToString v)))))"

definition parseAdditionalArgs :: "QueryBuilder \<Rightarrow> QueryArgs \<Rightarrow> outcome" where
  "parseAdditionalArgs this arg = forOf (Object_entries arg) parseAdditionalArgs_body this"

definition parseArgument :: "QueryBuilder \<Rightarrow> QueryArgs \<Rightarrow> outcome" where
  "parseArgument this arg =
     andThen (if truthy (property arg ''skip'')
              then Inr (push this (SKIP_ARG @ ToString (property arg ''skip''))) else Inr this)
     (\<lambda>this.
     andThen (if truthy (property arg ''top'')
              then Inr (push this (TOP_ARG @ ToString (property arg ''top''))) else Inr this)
     (\<lambda>this.
     andThen (if truthy (property arg ''inlinecount'')
              then Inr (push this (INLINECOUNT_ARG @ ToString (property arg ''inlinecount'')))
              else Inr this)
     (\<lambda>this.
     andThen (if truthy (property arg ''expand'')
              then Inr (push this (EXPAND_ARG @ ToString (property arg ''expand''))) else Inr this)
     (\<lambda>this.
     andThen (if truthy (property arg ''orderBy'')
              then Inr (push this (ORDERBY_ARG @ ToString (property arg ''orderBy''))) else Inr this)
     (\<lambda>this. parseAdditionalArgs this arg)))))"

definition addArgument :: "QueryBuilder \<Rightarrow> QueryArgs \<Rightarrow> outcome" where
  "addArgument this arg = parseArgument (this\<lparr>arguments := arguments this @ [arg]\<rparr>) arg"

definition getArguments :: "QueryBuilder \<Rightarrow> QueryArgs list" where
  "getArguments this = arguments this"

definition flush :: "QueryBuilder \<Rightarrow> QueryBuilder" where
  "flush this = this\<lparr>arguments := [], joinedArgs := []\<rparr>"

text \<open>\<open>xs.join("&")\<close> on an array of strings.\<close>

fun join_amp :: "string list \<Rightarrow> string" where
  "join_amp [] = []"
| "join_amp [x] = x"
| "join_amp (x # y # ys) = x @ ''&'' @ join_amp (y # ys)"

definition build :: "QueryBuilder \<Rightarrow> string" where
  "build this = (if length (joinedArgs this) \<le> 0 then [] else ''?'' @ join_amp (joinedArgs this))"

section \<open>The query normalizer\<close>

text \<open>What \<open>constructQuery\<close> accepts: \<open>string | QueryBuilder | undefined | null\<close>.\<close>

datatype query = QUndefined | QNull | QString string | QBuilder QueryBuilder

text \<open>\<open>!query\<close> holds of \<open>undefined\<close>, of \<open>null\<close> and of the empty string; a builder is an
  object, which is truthy.\<close>

fun constructQuery :: "query \<Rightarrow> string" where
  "constructQuery QUndefined = []"
| "constructQuery QNull = []"
| "constructQuery (QString s) = (if s = [] then [] else s)"
| "constructQuery (QBuilder b) = build b"

section \<open>Notions used to state the properties\<close>

text \<open>The fragments one call of \<open>addArgument\<close> pushes, seen on a fresh builder.\<close>

definition fragments :: "QueryArgs \<Rightarrow> string list" where
  "fragments arg = joinedArgs (after (addArgument new_QueryBuilder arg))"

text \<open>Whether a call ended with an exception.\<close>

definition raises :: "outcome \<Rightarrow> bool" where
  "raises r = (case r of Inl x \<Rightarrow> True | Inr this \<Rightarrow> False)"

text \<open>
  An Attribute Pair is a record with both a \<open>key\<close> and a \<open>value\<close> field, each holding a
  defined value; \<open>pair_fields\<close> gives the two values.
\<close>

fun pair_fields :: "jsval \<Rightarrow> (jsval \<times> jsval) option" where
  "pair_fields (JObj ps) =
     (case (map_of ps ''key'', map_of ps ''value'') of
        (Some k, Some v) \<Rightarrow> if k \<noteq> JUndefined \<and> v \<noteq> JUndefined then Some (k, v) else None
      | _ \<Rightarrow> None)"
| "pair_fields v = None"




section \<open>What a call pushes, as a value\<close>

text \<open>
  Every method of the builder only appends to \<open>joinedArgs\<close>, and what it appends does not
  depend on the builder it starts from. A \<open>trace\<close> is that effect: the fragments pushed,
  and the exception that ended the run, if any. The functions below compute the trace of
  each method; the lemmas after them show that the method is \<open>emit\<close> of its trace.
\<close>

type_synonym trace = "string list \<times> error option"

definition emit :: "QueryBuilder \<Rightarrow> trace \<Rightarrow> outcome" where
  "emit this t =
     (case snd t of
        None \<Rightarrow> Inr (this\<lparr>joinedArgs := joinedArgs this @ fst t\<rparr>)
      | Some e \<Rightarrow> Inl (e, this\<lparr>joinedArgs := joinedArgs this @ fst t\<rparr>))"

definition tr_then :: "trace \<Rightarrow> trace \<Rightarrow> trace" where
  "tr_then t u = (case snd t of None \<Rightarrow> (fst t @ fst u, snd u) | Some e \<Rightarrow> t)"

fun tr_all :: "trace list \<Rightarrow> trace" where
  "tr_all [] = ([], None)"
| "tr_all (t # ts) = tr_then t (tr_all ts)"

definition attr_trace :: "jsval \<Rightarrow> trace" where
  "attr_trace el =
     (case Get el ''key'' of
        Inl e \<Rightarrow> ([], Some e)
      | Inr k \<Rightarrow>
          (case Get el ''value'' of
             Inl e \<Rightarrow> ([], Some e)
           | Inr v \<Rightarrow> ([ToString k @ ''='' @ ToString v], None)))"

definition array_trace :: "string \<Rightarrow> jsval list \<Rightarrow> trace" where
  "array_trace key values =
     (if values = [] then ([], None)
      else
        (case isAttributeArg (hd values) of
           Inl e \<Rightarrow> ([], Some e)
         | Inr True \<Rightarrow> tr_all (map attr_trace values)
         | Inr False \<Rightarrow> (map (\<lambda>el. key @ ''='' @ ToString el) values, None)))"

definition entry_trace :: "string \<times> jsval \<Rightarrow> trace" where
  "entry_trace kv =
     (case kv of (k, v) \<Rightarrow>
        if isDefaultKey k \<or> v = JUndefined then ([], None)
        else
          (case v of
             JArr values \<Rightarrow> array_trace k values
           | _ \<Rightarrow>
               (case isAttributeArg v of
                  Inl e \<Rightarrow> ([], Some e)
                | Inr True \<Rightarrow> attr_trace v
                | Inr False \<Rightarrow> ([k @ ''='' @ ToString v], None))))"

definition custom_trace :: "QueryArgs \<Rightarrow> trace" where
  "custom_trace arg = tr_all (map entry_trace (Object_entries arg))"

definition default_fragment :: "string \<Rightarrow> jsval \<Rightarrow> string list" where
  "default_fragment prefix v = (if truthy v then [prefix @ ToString v] else [])"

definition default_fragments :: "QueryArgs \<Rightarrow> string list" where
  "default_fragments arg =
     default_fragment ''$skip='' (property arg ''skip'')
     @ default_fragment ''$top='' (property arg ''top'')
     @ default_fragment ''$inlinecount='' (property arg ''inlinecount'')
     @ default_fragment ''$expand='' (property arg ''expand'')
     @ default_fragment ''$orderBy='' (property arg ''orderBy'')"

definition arg_trace :: "QueryArgs \<Rightarrow> trace" where
  "arg_trace arg = tr_then (default_fragments arg, None) (custom_trace arg)"

section \<open>The methods as traces\<close>

lemma after_emit: "after (emit s t) = s\<lparr>joinedArgs := joinedArgs s @ fst t\<rparr>"
  by (simp add: after_def emit_def split: option.splits)

lemma emit_nil: "emit s ([], None) = Inr s"
  by (simp add: emit_def)

lemma emit_push: "emit s ([f], None) = Inr (push s f)"
  by (simp add: emit_def push_def)

lemma emit_raise: "emit s ([], Some e) = Inl (e, s)"
  by (simp add: emit_def)

lemma andThen_emit:
  assumes "\<And>s'. f s' = emit s' u"
  shows "andThen (emit s t) f = emit s (tr_then t u)"
  using assms by (simp add: andThen_def emit_def tr_then_def split: option.splits)

lemma forOf_emit:
  assumes "\<And>s x. body s x = emit s (g x)"
  shows "forOf xs body s = emit s (tr_all (map g xs))"
proof (induction xs arbitrary: s)
  case Nil
  show ?case by (simp add: emit_nil)
next
  case (Cons x xs)
  have "forOf (x # xs) body s = andThen (emit s (g x)) (forOf xs body)"
    by (simp add: assms)
  also have "\<dots> = emit s (tr_then (g x) (tr_all (map g xs)))"
    by (rule andThen_emit) (rule Cons.IH)
  finally show ?case by simp
qed

lemma handleAttributeArgument_emit: "handleAttributeArgument s el = emit s (attr_trace el)"
  by (simp add: handleAttributeArgument_def attr_trace_def emit_raise emit_push split: sum.splits)

lemma tr_all_ok: "tr_all (map (\<lambda>x. ([f x], None)) xs) = (map f xs, None)"
  by (induction xs) (simp_all add: tr_then_def)

lemma handleArrayArg_emit: "handleArrayArg s k vs = emit s (array_trace k vs)"
proof (cases vs)
  case Nil
  then show ?thesis by (simp add: handleArrayArg_def array_trace_def emit_nil)
next
  case (Cons v vs')
  have a: "forOf vs handleAttributeArgument s = emit s (tr_all (map attr_trace vs))"
    by (rule forOf_emit) (rule handleAttributeArgument_emit)
  have b: "forOf vs (\<lambda>this el. Inr (push this (k @ ''='' @ ToString el))) s
      = emit s (map (\<lambda>el. k @ ''='' @ ToString el) vs, None)"
    using forOf_emit [of "\<lambda>this el. Inr (push this (k @ ''='' @ ToString el))"
        "\<lambda>el. ([k @ ''='' @ ToString el], None)" vs s]
    by (simp add: emit_push tr_all_ok)
  show ?thesis
    using Cons a b
    by (simp add: handleArrayArg_def array_trace_def emit_raise split: sum.splits bool.splits)
qed

lemma parseAdditionalArgs_body_emit: "parseAdditionalArgs_body s kv = emit s (entry_trace kv)"
  by (cases kv)
     (simp add: parseAdditionalArgs_body_def entry_trace_def emit_nil emit_raise emit_push
        handleArrayArg_emit handleAttributeArgument_emit
        split: jsval.splits sum.splits bool.splits)

lemma parseAdditionalArgs_emit: "parseAdditionalArgs s arg = emit s (custom_trace arg)"
  unfolding parseAdditionalArgs_def custom_trace_def
  by (rule forOf_emit) (rule parseAdditionalArgs_body_emit)

lemma default_step_emit:
  "(if truthy v then Inr (push s (p @ ToString v)) else Inr s) = emit s (default_fragment p v, None)"
  by (simp add: default_fragment_def emit_nil emit_push)

lemma tr_then_ok: "tr_then (fs, None) u = (fs @ fst u, snd u)"
  by (simp add: tr_then_def)

lemma andThen_ok: "andThen (emit s (fs, None)) f = f (s\<lparr>joinedArgs := joinedArgs s @ fs\<rparr>)"
  by (simp add: andThen_def emit_def)

lemma parseArgument_emit: "parseArgument s arg = emit s (arg_trace arg)"
  unfolding parseArgument_def SKIP_ARG_def TOP_ARG_def INLINECOUNT_ARG_def EXPAND_ARG_def
    ORDERBY_ARG_def default_step_emit andThen_ok parseAdditionalArgs_emit
  by (simp add: emit_def arg_trace_def tr_then_def default_fragments_def split: option.splits)

lemma addArgument_emit:
  "addArgument s arg = emit (s\<lparr>arguments := arguments s @ [arg]\<rparr>) (arg_trace arg)"
  by (simp add: addArgument_def parseArgument_emit)

lemma fragments_eq: "fragments arg = fst (arg_trace arg)"
  by (simp add: fragments_def addArgument_emit after_emit new_QueryBuilder_def)

lemma after_addArgument:
  "after (addArgument s arg)
     = s\<lparr>arguments := arguments s @ [arg], joinedArgs := joinedArgs s @ fragments arg\<rparr>"
  by (simp add: fragments_eq addArgument_emit after_emit)

lemma raises_emit: "raises (emit s t) = (snd t \<noteq> None)"
  by (simp add: raises_def emit_def split: option.splits)

lemma snd_arg_trace: "snd (arg_trace arg) = snd (custom_trace arg)"
  by (simp add: arg_trace_def tr_then_def)

lemma fst_arg_trace: "fst (arg_trace arg) = default_fragments arg @ fst (custom_trace arg)"
  by (simp add: arg_trace_def tr_then_def)

lemma raises_addArgument: "raises (addArgument s arg) = (snd (custom_trace arg) \<noteq> None)"
  by (simp add: addArgument_emit raises_emit snd_arg_trace)

lemma addArgument_returns:
  assumes "snd (custom_trace arg) = None"
  shows "addArgument s arg
     = Inr (s\<lparr>arguments := arguments s @ [arg], joinedArgs := joinedArgs s @ fragments arg\<rparr>)"
  using assms by (simp add: addArgument_emit emit_def snd_arg_trace fragments_eq)

lemma Object_entries_filter:
  "Object_entries (filter (\<lambda>(k, v). P k) arg) = filter (\<lambda>(k, v). P k) (Object_entries arg)"
proof -
  have "\<And>Q. filter (\<lambda>(k, v). Q k) (filter (\<lambda>(k, v). P k) arg)
      = filter (\<lambda>(k, v). P k) (filter (\<lambda>(k, v). Q k) arg)"
    by (induction arg) auto
  then show ?thesis
    by (simp add: Object_entries_def filter_sort)
qed

lemma set_Object_entries: "set (Object_entries arg) = set arg"
  by (auto simp: Object_entries_def)

lemma property_filter:
  "property (filter (\<lambda>(k, v). P k) arg) name = (if P name then property arg name else JUndefined)"
  by (induction arg) (auto simp: property_def)

lemma tr_then_nil: "tr_then ([], None) u = u"
  by (simp add: tr_then_def)

lemma tr_all_filter:
  assumes "\<And>x. x \<in> set xs \<Longrightarrow> \<not> P x \<Longrightarrow> f x = ([], None)"
  shows "tr_all (map f (filter P xs)) = tr_all (map f xs)"
  using assms by (induction xs) (auto simp: tr_then_nil)

lemma entry_trace_default: "isDefaultKey k \<Longrightarrow> entry_trace (k, v) = ([], None)"
  by (simp add: entry_trace_def)

lemma custom_trace_filter:
  assumes "\<And>k. \<not> P k \<Longrightarrow> isDefaultKey k"
  shows "custom_trace (filter (\<lambda>(k, v). P k) arg) = custom_trace arg"
  unfolding custom_trace_def Object_entries_filter
  by (rule tr_all_filter) (auto simp: entry_trace_default assms)

lemma tr_all_nil:
  assumes "\<And>x. x \<in> set xs \<Longrightarrow> f x = ([], None)"
  shows "tr_all (map f xs) = ([], None)"
  using assms by (induction xs) (auto simp: tr_then_nil)

lemma custom_trace_default:
  assumes "\<And>k. k \<in> fst ` set arg \<Longrightarrow> isDefaultKey k"
  shows "custom_trace arg = ([], None)"
  unfolding custom_trace_def
  by (rule tr_all_nil) (use assms in \<open>force simp: entry_trace_default set_Object_entries\<close>)

lemma default_keys_five:
  "isDefaultKey ''skip''" "isDefaultKey ''top''" "isDefaultKey ''inlinecount''"
  "isDefaultKey ''expand''" "isDefaultKey ''orderBy''"
  by (simp_all add: isDefaultKey_def DEFAULT_KEYS_def)

lemma default_fragments_custom:
  "default_fragments (filter (\<lambda>(k, v). \<not> isDefaultKey k) arg) = []"
  by (simp add: default_fragments_def property_filter default_keys_five default_fragment_def)

lemma default_fragments_default:
  "default_fragments (filter (\<lambda>(k, v). isDefaultKey k) arg) = default_fragments arg"
  by (simp add: default_fragments_def property_filter default_keys_five)

lemma fragments_custom_part:
  "fragments (filter (\<lambda>(k, v). \<not> isDefaultKey k) arg) = fst (custom_trace arg)"
proof -
  have "custom_trace (filter (\<lambda>(k, v). \<not> isDefaultKey k) arg) = custom_trace arg"
    by (rule custom_trace_filter) simp
  then show ?thesis
    by (simp only: fragments_eq fst_arg_trace default_fragments_custom append_Nil)
qed

lemma fragments_default_part:
  "fragments (filter (\<lambda>(k, v). isDefaultKey k) arg) = default_fragments arg"
proof -
  have "custom_trace (filter (\<lambda>(k, v). isDefaultKey k) arg) = ([], None)"
    by (rule custom_trace_default) auto
  then show ?thesis
    by (simp add: fragments_eq fst_arg_trace default_fragments_default)
qed

lemma fragments_split:
  "fragments arg = default_fragments arg @ fragments (filter (\<lambda>(k, v). \<not> isDefaultKey k) arg)"
  unfolding fragments_custom_part by (simp add: fragments_eq fst_arg_trace)


lemma fst_tr_all: "snd (tr_all ts) = None \<Longrightarrow> fst (tr_all ts) = concat (map fst ts)"
  by (induction ts) (auto simp: tr_then_def split: option.splits)


lemma isAttributeArg_pair_fields:
  "x \<noteq> JNull \<Longrightarrow> x \<noteq> JUndefined \<Longrightarrow> isAttributeArg x = Inr (pair_fields x \<noteq> None)"
  by (cases x) (auto simp: isAttributeArg_def split: option.splits)


lemma attr_trace_pair:
  "pair_fields p = Some (a, b) \<Longrightarrow> attr_trace p = ([ToString a @ ''='' @ ToString b], None)"
  by (cases p) (auto simp: attr_trace_def split: option.splits if_splits)

lemma pair_fields_Some:
  "pair_fields p = Some ab \<Longrightarrow> p \<noteq> JNull \<and> p \<noteq> JUndefined \<and> (\<forall>xs. p \<noteq> JArr xs)"
  by (cases p) auto





lemma Object_entries_single: "Object_entries [kv] = [kv]"
  by (cases kv) (simp add: Object_entries_def)

lemma property_other: "k \<noteq> name \<Longrightarrow> property [(k, v)] name = JUndefined"
  by (simp add: property_def)

lemma default_fragments_single:
  assumes "\<not> isDefaultKey k"
  shows "default_fragments [(k, v)] = []"
proof -
  have "k \<noteq> ''skip''" "k \<noteq> ''top''" "k \<noteq> ''inlinecount''" "k \<noteq> ''expand''" "k \<noteq> ''orderBy''"
    using assms default_keys_five by blast+
  then show ?thesis
    by (simp add: default_fragments_def property_other default_fragment_def)
qed

lemma tr_then_nil2: "tr_then t ([], None) = t"
  by (cases t) (simp add: tr_then_def split: option.splits)

lemma custom_trace_single: "custom_trace [kv] = entry_trace kv"
  by (simp add: custom_trace_def Object_entries_single tr_then_nil2)

lemma fragments_single: "\<not> isDefaultKey k \<Longrightarrow> fragments [(k, v)] = fst (entry_trace (k, v))"
  by (simp add: fragments_eq fst_arg_trace default_fragments_single custom_trace_single)

lemma fragments_embedded:
  assumes "(k, v) \<in> set arg" and "\<not> isDefaultKey k" and "snd (custom_trace arg) = None"
  shows "\<exists>pre post. fragments arg = pre @ fragments [(k, v)] @ post"
proof -
  from assms(1) have "(k, v) \<in> set (Object_entries arg)"
    by (simp add: set_Object_entries)
  then obtain ys zs where split: "Object_entries arg = ys @ (k, v) # zs"
    by (auto simp: in_set_conv_decomp)
  have "fst (custom_trace arg) = concat (map fst (map entry_trace (Object_entries arg)))"
    using assms(3) unfolding custom_trace_def by (rule fst_tr_all)
  then have "fst (custom_trace arg) = concat (map fst (map entry_trace ys))
      @ fst (entry_trace (k, v)) @ concat (map fst (map entry_trace zs))"
    by (simp add: split)
  then have "fragments arg = (default_fragments arg @ concat (map fst (map entry_trace ys)))
      @ fragments [(k, v)] @ concat (map fst (map entry_trace zs))"
    unfolding fragments_single [OF assms(2)] by (simp add: fragments_eq fst_arg_trace)
  then show ?thesis by blast
qed

lemma fragments_all_default:
  assumes "\<forall>k \<in> fst ` set arg. isDefaultKey k"
  shows "fragments (filter (\<lambda>(k, v). \<not> isDefaultKey k) arg) = []"
proof -
  have "custom_trace arg = ([], None)"
    by (rule custom_trace_default) (use assms in blast)
  then show ?thesis by (simp add: fragments_custom_part)
qed

lemma joinedArgs_after_addArgument:
  "joinedArgs (after (addArgument s arg)) = joinedArgs s @ fragments arg"
  by (simp add: after_addArgument)

section \<open>Single entries and sequences\<close>

text \<open>The definitions unfolded when a call is evaluated on a concrete argument object.\<close>

lemmas eval_simps =
  arg_trace_def default_fragments_def default_fragment_def custom_trace_def Object_entries_def
  entry_trace_def array_trace_def attr_trace_def tr_then_def is_array_index_def is_digit_def
  string_to_nat_def property_def isDefaultKey_def DEFAULT_KEYS_def isAttributeArg_def
  NumberToString_def nat_digits.simps digit_char_def

lemma entry_trace_pair:
  assumes "\<not> isDefaultKey k" and "pair_fields p = Some (a, b)"
  shows "entry_trace (k, p) = ([ToString a @ ''='' @ ToString b], None)"
proof -
  from assms(2) obtain ps where p: "p = JObj ps"
    by (cases p) auto
  have "isAttributeArg p = Inr True"
    using isAttributeArg_pair_fields [of p] assms(2) p by simp
  then show ?thesis
    using assms p by (simp add: entry_trace_def attr_trace_pair)
qed

lemma pairs_trace:
  "map pair_fields ps = map Some pairs \<Longrightarrow>
     tr_all (map attr_trace ps) = (map (\<lambda>(a, b). ToString a @ ''='' @ ToString b) pairs, None)"
proof (induction ps arbitrary: pairs)
  case Nil
  then show ?case by simp
next
  case (Cons p ps)
  then obtain a b pairs' where pairs: "pairs = (a, b) # pairs'" and p: "pair_fields p = Some (a, b)"
    and rest: "map pair_fields ps = map Some pairs'"
    by (cases pairs) auto
  show ?case
    by (simp add: pairs attr_trace_pair [OF p] Cons.IH [OF rest] tr_then_def)
qed

lemma entry_trace_pairs:
  assumes "\<not> isDefaultKey k" and "map pair_fields ps = map Some pairs"
  shows "entry_trace (k, JArr ps) = (map (\<lambda>(a, b). ToString a @ ''='' @ ToString b) pairs, None)"
proof (cases ps)
  case Nil
  then show ?thesis
    using assms by (simp add: entry_trace_def array_trace_def)
next
  case (Cons p ps')
  then obtain ab where p: "pair_fields p = Some ab"
    using assms(2) by (cases pairs) auto
  have "isAttributeArg p = Inr True"
    using isAttributeArg_pair_fields [of p] pair_fields_Some [OF p] p by simp
  then have "entry_trace (k, JArr ps) = tr_all (map attr_trace ps)"
    using assms(1) Cons by (simp add: entry_trace_def array_trace_def)
  then show ?thesis
    by (simp only: pairs_trace [OF assms(2)])
qed


lemma addArgument_single:
  assumes "\<not> isDefaultKey k" and "entry_trace (k, v) = (fs, None)"
  shows "addArgument this [(k, v)]
     = Inr (this\<lparr>arguments := arguments this @ [[(k, v)]], joinedArgs := joinedArgs this @ fs\<rparr>)"
proof -
  have "snd (custom_trace [(k, v)]) = None"
    by (simp add: custom_trace_single assms(2))
  from addArgument_returns [OF this, of this] show ?thesis
    by (simp add: fragments_single [OF assms(1)] assms(2))
qed

lemma custom_scalar_fragment:
  assumes "\<not> isDefaultKey k" and "v = JBool b \<or> v = JNum n \<or> v = JStr s"
  shows "addArgument this [(k, v)] =
      Inr (this\<lparr>arguments := arguments this @ [[(k, v)]],
                 joinedArgs := joinedArgs this @ [k @ ''='' @ ToString v]\<rparr>)"
proof -
  have "entry_trace (k, v) = ([k @ ''='' @ ToString v], None)"
    using assms by (auto simp: entry_trace_def isAttributeArg_def)
  from addArgument_single [OF assms(1) this] show ?thesis .
qed

lemma joinedArgs_embedded:
  assumes "(k, v) \<in> set arg" and "\<not> isDefaultKey k" and "\<not> raises (addArgument this arg)"
    and "entry_trace (k, v) = (fs, None)"
  shows "\<exists>pre post. joinedArgs (after (addArgument this arg)) = joinedArgs this @ pre @ fs @ post"
proof -
  have "snd (custom_trace arg) = None"
    using assms(3) by (simp add: raises_addArgument)
  from fragments_embedded [OF assms(1,2) this]
  obtain pre post where "fragments arg = pre @ fs @ post"
    by (auto simp: fragments_single [OF assms(2)] assms(4))
  then have "joinedArgs (after (addArgument this arg)) = joinedArgs this @ pre @ fs @ post"
    by (simp add: joinedArgs_after_addArgument)
  then show ?thesis by blast
qed

section \<open>The order of the fragments\<close>

lemma concat_map_filter:
  assumes "\<And>x. x \<in> set xs \<Longrightarrow> \<not> P x \<Longrightarrow> f x = []"
  shows "concat (map f (filter P xs)) = concat (map f xs)"
  using assms by (induction xs) auto

lemma Object_entries_plain:
  assumes "\<forall>k \<in> fst ` set arg. \<not> is_array_index k"
  shows "Object_entries arg = arg"
proof -
  have "filter (\<lambda>(k, v). is_array_index k) arg = []"
    using assms by (auto simp: filter_empty_conv)
  moreover have "filter (\<lambda>(k, v). \<not> is_array_index k) arg = arg"
    using assms by (auto simp: filter_id_conv)
  ultimately show ?thesis
    by (simp add: Object_entries_def)
qed

lemma fragments_custom_in_entries_order:
  assumes "\<not> raises (addArgument this a)"
  shows "fragments (filter (\<lambda>(k, v). \<not> isDefaultKey k) a) =
     concat (map (\<lambda>kv. fragments [kv]) (Object_entries (filter (\<lambda>(k, v). \<not> isDefaultKey k) a)))"
proof -
  have ok: "snd (custom_trace a) = None"
    using assms by (simp add: raises_addArgument)
  have "concat (map (\<lambda>kv. fragments [kv]) (Object_entries (filter (\<lambda>(k, v). \<not> isDefaultKey k) a)))
      = concat (map (\<lambda>kv. fragments [kv]) (filter (\<lambda>(k, v). \<not> isDefaultKey k) (Object_entries a)))"
    by (simp only: Object_entries_filter)
  also have "\<dots> = concat (map (\<lambda>kv. fst (entry_trace kv)) (filter (\<lambda>(k, v). \<not> isDefaultKey k) (Object_entries a)))"
    by (rule arg_cong [where f = concat], rule map_cong) (auto simp: fragments_single)
  also have "\<dots> = concat (map (\<lambda>kv. fst (entry_trace kv)) (Object_entries a))"
    by (rule concat_map_filter) (auto simp: entry_trace_default)
  also have "\<dots> = fst (custom_trace a)"
    using fst_tr_all [of "map entry_trace (Object_entries a)"] ok
    by (simp add: custom_trace_def comp_def)
  finally show ?thesis
    by (simp add: fragments_custom_part)
qed

lemma fragments_with_expand:
  "fragments arg =
     (default_fragment ''$skip='' (property arg ''skip'')
      @ default_fragment ''$top='' (property arg ''top'')
      @ default_fragment ''$inlinecount='' (property arg ''inlinecount''))
     @ default_fragment ''$expand='' (property arg ''expand'')
     @ (default_fragment ''$orderBy='' (property arg ''orderBy'') @ fst (custom_trace arg))"
  by (simp add: fragments_eq fst_arg_trace default_fragments_def)

lemma fragments_without_expand:
  "fragments (filter (\<lambda>(k, v). k \<noteq> ''expand'') arg) =
     (default_fragment ''$skip='' (property arg ''skip'')
      @ default_fragment ''$top='' (property arg ''top'')
      @ default_fragment ''$inlinecount='' (property arg ''inlinecount''))
     @ (default_fragment ''$orderBy='' (property arg ''orderBy'') @ fst (custom_trace arg))"
proof -
  have "custom_trace (filter (\<lambda>(k, v). k \<noteq> ''expand'') arg) = custom_trace arg"
    by (rule custom_trace_filter) (simp add: default_keys_five)
  then show ?thesis
    by (simp add: fragments_eq fst_arg_trace default_fragments_def property_filter
        default_fragment_def)
qed

section \<open>Properties of the specification\<close>

text \<open>
  C1. An argument object holding the five default keys with truthy values: one
  \<open>addArgument\<close> pushes the five fragments in the order \<open>$skip\<close>, \<open>$top\<close>,
  \<open>$inlinecount\<close>, \<open>$expand\<close>, \<open>$orderBy\<close>, before anything a custom key gives, wherever
  the caller wrote the fields; when the object holds nothing else, \<open>build\<close> gives exactly
  these five joined by \<open>&\<close> after a \<open>?\<close>.
\<close>

theorem C1_default_key_order:
  assumes "truthy (property arg ''skip'')" and "truthy (property arg ''top'')"
    and "truthy (property arg ''inlinecount'')" and "truthy (property arg ''expand'')"
    and "truthy (property arg ''orderBy'')"
  shows "joinedArgs (after (addArgument this arg)) =
      joinedArgs this @
      [''$skip='' @ ToString (property arg ''skip''),
       ''$top='' @ ToString (property arg ''top''),
       ''$inlinecount='' @ ToString (property arg ''inlinecount''),
       ''$expand='' @ ToString (property arg ''expand''),
       ''$orderBy='' @ ToString (property arg ''orderBy'')] @
      fragments (filter (\<lambda>(k, v). \<not> isDefaultKey k) arg)
    \<and> ((\<forall>k \<in> fst ` set arg. isDefaultKey k) \<longrightarrow>
         addArgument new_QueryBuilder arg =
           Inr \<lparr>arguments = [arg],
                joinedArgs =
                  [''$skip='' @ ToString (property arg ''skip''),
                   ''$top='' @ ToString (property arg ''top''),
                   ''$inlinecount='' @ ToString (property arg ''inlinecount''),
                   ''$expand='' @ ToString (property arg ''expand''),
                   ''$orderBy='' @ ToString (property arg ''orderBy'')]\<rparr>
       \<and> build (after (addArgument new_QueryBuilder arg)) =
           ''?$skip='' @ ToString (property arg ''skip'')
           @ ''&$top='' @ ToString (property arg ''top'')
           @ ''&$inlinecount='' @ ToString (property arg ''inlinecount'')
           @ ''&$expand='' @ ToString (property arg ''expand'')
           @ ''&$orderBy='' @ ToString (property arg ''orderBy''))"
proof -
  let ?five = "[''$skip='' @ ToString (property arg ''skip''),
       ''$top='' @ ToString (property arg ''top''),
       ''$inlinecount='' @ ToString (property arg ''inlinecount''),
       ''$expand='' @ ToString (property arg ''expand''),
       ''$orderBy='' @ ToString (property arg ''orderBy'')]"
  have d: "default_fragments arg = ?five"
    using assms by (simp add: default_fragments_def default_fragment_def)
  have 1: "joinedArgs (after (addArgument this arg)) =
      joinedArgs this @ ?five @ fragments (filter (\<lambda>(k, v). \<not> isDefaultKey k) arg)"
    unfolding joinedArgs_after_addArgument
    by (subst fragments_split) (simp only: d)
  have 2: "addArgument new_QueryBuilder arg = Inr \<lparr>arguments = [arg], joinedArgs = ?five\<rparr>
      \<and> build (after (addArgument new_QueryBuilder arg)) =
           ''?$skip='' @ ToString (property arg ''skip'')
           @ ''&$top='' @ ToString (property arg ''top'')
           @ ''&$inlinecount='' @ ToString (property arg ''inlinecount'')
           @ ''&$expand='' @ ToString (property arg ''expand'')
           @ ''&$orderBy='' @ ToString (property arg ''orderBy'')"
    if all: "\<forall>k \<in> fst ` set arg. isDefaultKey k"
  proof -
    have c: "custom_trace arg = ([], None)"
      by (rule custom_trace_default) (use all in blast)
    have f: "fragments arg = ?five"
      by (simp only: fragments_eq fst_arg_trace d c fst_conv append_Nil2)
    have r: "addArgument new_QueryBuilder arg = Inr \<lparr>arguments = [arg], joinedArgs = ?five\<rparr>"
      using addArgument_returns [of arg new_QueryBuilder] c f
      by (simp add: new_QueryBuilder_def)
    show ?thesis
      unfolding r by (simp add: after_def build_def)
  qed
  from 1 2 show ?thesis by blast
qed

text \<open>The five fields written in the reverse order give the string of the specification.\<close>

theorem C1_default_key_order_witness:
  "build (after (addArgument new_QueryBuilder
      [(''orderBy'', JStr ''id desc''), (''expand'', JStr ''x''),
       (''inlinecount'', JStr ''allpages''), (''top'', JNum 2), (''skip'', JNum 10)]))
   = ''?$skip=10&$top=2&$inlinecount=allpages&$expand=x&$orderBy=id desc''"
proof -
  let ?arg = "[(''orderBy'', JStr ''id desc''), (''expand'', JStr ''x''),
       (''inlinecount'', JStr ''allpages''), (''top'', JNum 2), (''skip'', JNum 10)]"
  have p: "property ?arg ''skip'' = JNum 10" "property ?arg ''top'' = JNum 2"
    "property ?arg ''inlinecount'' = JStr ''allpages''" "property ?arg ''expand'' = JStr ''x''"
    "property ?arg ''orderBy'' = JStr ''id desc''"
    by (simp_all add: property_def)
  have n: "NumberToString 10 = ''10''" "NumberToString 2 = ''2''"
    by (simp_all add: NumberToString_def nat_digits.simps digit_char_def)
  have k: "\<forall>k \<in> fst ` set ?arg. isDefaultKey k"
    by (simp add: isDefaultKey_def DEFAULT_KEYS_def)
  have t: "truthy (property ?arg ''skip'')" "truthy (property ?arg ''top'')"
    "truthy (property ?arg ''inlinecount'')" "truthy (property ?arg ''expand'')"
    "truthy (property ?arg ''orderBy'')"
    by (simp_all add: p)
  from C1_default_key_order [OF t, of new_QueryBuilder] k
  have "build (after (addArgument new_QueryBuilder ?arg)) =
      ''?$skip='' @ ToString (property ?arg ''skip'')
      @ ''&$top='' @ ToString (property ?arg ''top'')
      @ ''&$inlinecount='' @ ToString (property ?arg ''inlinecount'')
      @ ''&$expand='' @ ToString (property ?arg ''expand'')
      @ ''&$orderBy='' @ ToString (property ?arg ''orderBy'')"
    by blast
  then show ?thesis
    by (simp add: p n)
qed

text \<open>
  C2. An Attribute Pair under a custom key \<open>k\<close> is never rendered under \<open>k\<close>: a single pair
  with the fields \<open>a\<close> and \<open>b\<close> gives the one fragment \<open>a=b\<close>, and a sequence of pairs gives
  one such fragment for each element, in order. This holds for the object that has only
  this entry, where the whole result is stated, and for an entry of any argument object
  on which the call returns, where the fragments stand together among the others.
\<close>

theorem C2_attribute_pairs:
  assumes "\<not> isDefaultKey k"
  shows "(pair_fields p = Some (a, b) \<longrightarrow>
            addArgument this [(k, p)] =
              Inr (this\<lparr>arguments := arguments this @ [[(k, p)]],
                         joinedArgs := joinedArgs this @ [ToString a @ ''='' @ ToString b]\<rparr>))
       \<and> (map pair_fields ps = map Some pairs \<longrightarrow>
            addArgument this [(k, JArr ps)] =
              Inr (this\<lparr>arguments := arguments this @ [[(k, JArr ps)]],
                         joinedArgs := joinedArgs this
                           @ map (\<lambda>(a, b). ToString a @ ''='' @ ToString b) pairs\<rparr>))
       \<and> (pair_fields p = Some (a, b) \<and> (k, p) \<in> set arg \<and> \<not> raises (addArgument this arg) \<longrightarrow>
            (\<exists>pre post. joinedArgs (after (addArgument this arg)) =
               joinedArgs this @ pre @ [ToString a @ ''='' @ ToString b] @ post))
       \<and> (map pair_fields ps = map Some pairs \<and> (k, JArr ps) \<in> set arg
            \<and> \<not> raises (addArgument this arg) \<longrightarrow>
            (\<exists>pre post. joinedArgs (after (addArgument this arg)) =
               joinedArgs this @ pre @ map (\<lambda>(a, b). ToString a @ ''='' @ ToString b) pairs @ post))"
  using addArgument_single [OF assms entry_trace_pair [OF assms]]
    addArgument_single [OF assms entry_trace_pairs [OF assms]]
    joinedArgs_embedded [OF _ assms _ entry_trace_pair [OF assms]]
    joinedArgs_embedded [OF _ assms _ entry_trace_pairs [OF assms]]
  by blast

text \<open>The two examples of the specification: \<open>?random=value\<close> and \<open>?a=1&b=2\<close>.\<close>

theorem C2_attribute_pairs_witness:
  "build (after (addArgument new_QueryBuilder
      [(''attributes'', JObj [(''key'', JStr ''random''), (''value'', JStr ''value'')])]))
     = ''?random=value''
   \<and> build (after (addArgument new_QueryBuilder
      [(''attributes'', JArr [JObj [(''key'', JStr ''a''), (''value'', JStr ''1'')],
                             JObj [(''key'', JStr ''b''), (''value'', JStr ''2'')]])]))
     = ''?a=1&b=2''"
proof -
  have k: "\<not> isDefaultKey ''attributes''"
    by (simp add: isDefaultKey_def DEFAULT_KEYS_def)
  have p: "pair_fields (JObj [(''key'', JStr ''random''), (''value'', JStr ''value'')])
      = Some (JStr ''random'', JStr ''value'')"
    by simp
  have ps: "map pair_fields [JObj [(''key'', JStr ''a''), (''value'', JStr ''1'')],
        JObj [(''key'', JStr ''b''), (''value'', JStr ''2'')]]
      = map Some [(JStr ''a'', JStr ''1''), (JStr ''b'', JStr ''2'')]"
    by simp
  note t = C2_attribute_pairs [OF k, of _ _ _ new_QueryBuilder]
  from t [THEN conjunct1, rule_format, OF p]
    t [THEN conjunct2, THEN conjunct1, rule_format, OF ps]
  show ?thesis
    by (simp add: after_def build_def new_QueryBuilder_def)
qed







text \<open>
  C5. \<open>DEFAULT_KEYS\<close> holds six names, the five default keys and \<open>inline\<close>. An entry
  under \<open>inline\<close> is therefore skipped by \<open>parseAdditionalArgs\<close>, and \<open>parseArgument\<close>
  does not read it either: whatever its value, no fragment is pushed for it.
\<close>

theorem C5_inline_key_dropped:
  "isDefaultKey ''inline''
   \<and> addArgument this [(''inline'', v)] = Inr (this\<lparr>arguments := arguments this @ [[(''inline'', v)]]\<rparr>)
   \<and> build (after (addArgument new_QueryBuilder [(''inline'', JStr ''x'')])) = []
   \<and> build (after (addArgument new_QueryBuilder [(''top'', JNum 5), (''inline'', JStr ''x'')]))
       = ''?$top=5''"
proof -
  have k: "isDefaultKey ''inline''"
    by (simp add: isDefaultKey_def DEFAULT_KEYS_def)
  have t: "arg_trace [(''inline'', w)] = ([], None)" for w
    by (simp add: arg_trace_def default_fragments_def default_fragment_def property_def
        custom_trace_single entry_trace_default [OF k] tr_then_def)
  have r: "addArgument s [(''inline'', w)] = Inr (s\<lparr>arguments := arguments s @ [[(''inline'', w)]]\<rparr>)"
    for s w
    by (simp add: addArgument_emit t emit_def)
  have b: "build (after (addArgument new_QueryBuilder [(''top'', JNum 5), (''inline'', JStr ''x'')]))
      = ''?$top=5''"
    by (simp add: joinedArgs_after_addArgument fragments_eq eval_simps build_def new_QueryBuilder_def)
  have a: "build (after (addArgument new_QueryBuilder [(''inline'', JStr ''x'')])) = []"
    by (simp add: r after_def build_def new_QueryBuilder_def)
  from k r a b show ?thesis
    by blast
qed

text \<open>
  C6. What a call pushes for the default keys: for each of the five, in order, one fragment
  \<open>prefix\<close> followed by the value when the value is truthy, and nothing when it is falsy;
  after them, what the entries under the other keys give. The number \<open>0\<close> and the empty
  string are falsy.
\<close>

theorem C6_falsy_default_values_dropped:
  "joinedArgs (after (addArgument this arg)) =
     joinedArgs this
     @ (if truthy (property arg ''skip'')
        then [''$skip='' @ ToString (property arg ''skip'')] else [])
     @ (if truthy (property arg ''top'')
        then [''$top='' @ ToString (property arg ''top'')] else [])
     @ (if truthy (property arg ''inlinecount'')
        then [''$inlinecount='' @ ToString (property arg ''inlinecount'')] else [])
     @ (if truthy (property arg ''expand'')
        then [''$expand='' @ ToString (property arg ''expand'')] else [])
     @ (if truthy (property arg ''orderBy'')
        then [''$orderBy='' @ ToString (property arg ''orderBy'')] else [])
     @ fragments (filter (\<lambda>(k, v). \<not> isDefaultKey k) arg)
   \<and> truthy (JNum n) = (n \<noteq> 0) \<and> truthy (JStr s) = (s \<noteq> [])"
proof -
  have "fragments arg = default_fragments arg @ fragments (filter (\<lambda>(k, v). \<not> isDefaultKey k) arg)"
    by (rule fragments_split)
  then show ?thesis
    unfolding joinedArgs_after_addArgument default_fragments_def default_fragment_def
    by simp
qed

text \<open>\<open>skip: 0\<close> and the empty strings leave no fragment; \<open>top: 5\<close> and the order do.\<close>

theorem C6_falsy_default_values_dropped_witness:
  "joinedArgs (after (addArgument new_QueryBuilder
      [(''skip'', JNum 0), (''top'', JNum 5), (''inlinecount'', JStr []), (''expand'', JStr []),
       (''orderBy'', JStr ''id asc'')]))
     = [''$top=5'', ''$orderBy=id asc'']
   \<and> joinedArgs (after (addArgument new_QueryBuilder
      [(''skip'', JNum 0), (''top'', JNum 0), (''inlinecount'', JStr []), (''expand'', JStr []),
       (''orderBy'', JStr [])]))
     = []"
proof -
  let ?a = "[(''skip'', JNum 0), (''top'', JNum 5), (''inlinecount'', JStr []), (''expand'', JStr []),
       (''orderBy'', JStr ''id asc'')]"
  let ?b = "[(''skip'', JNum 0), (''top'', JNum 0), (''inlinecount'', JStr []), (''expand'', JStr []),
       (''orderBy'', JStr [])]"
  have k: "\<forall>k \<in> fst ` set ?a. isDefaultKey k" "\<forall>k \<in> fst ` set ?b. isDefaultKey k"
    by (simp_all add: isDefaultKey_def DEFAULT_KEYS_def)
  have n: "NumberToString 5 = ''5''"
    by (simp add: eval_simps)
  from C6_falsy_default_values_dropped [of new_QueryBuilder ?a, THEN conjunct1]
    C6_falsy_default_values_dropped [of new_QueryBuilder ?b, THEN conjunct1]
  show ?thesis
    unfolding fragments_all_default [OF k(1)] fragments_all_default [OF k(2)]
    by (simp add: property_def n new_QueryBuilder_def)
qed

text \<open>
  C7, as amended. A call only appends: the fragments of the builder after the call are
  those before it followed by the fragments of the argument, so the fragments of an
  earlier call precede those of a later one. Within a call the fragments of the default
  keys precede those of the custom keys. The fragments of the custom keys follow the
  order in which \<open>Object.entries\<close> lists the fields, which is the order in which the fields
  were written when no key is an array index.
\<close>

theorem C7_fragment_order:
  "joinedArgs (after (addArgument this a)) = joinedArgs this @ fragments a
   \<and> joinedArgs (after (addArgument (after (addArgument this a)) b))
       = joinedArgs this @ fragments a @ fragments b
   \<and> fragments a = fragments (filter (\<lambda>(k, v). isDefaultKey k) a)
                  @ fragments (filter (\<lambda>(k, v). \<not> isDefaultKey k) a)
   \<and> (\<not> raises (addArgument this a) \<longrightarrow>
        fragments (filter (\<lambda>(k, v). \<not> isDefaultKey k) a) =
          concat (map (\<lambda>kv. fragments [kv])
            (Object_entries (filter (\<lambda>(k, v). \<not> isDefaultKey k) a))))
   \<and> ((\<forall>k \<in> fst ` set a. \<not> is_array_index k) \<longrightarrow> Object_entries a = a)"
proof -
  have 3: "fragments a = fragments (filter (\<lambda>(k, v). isDefaultKey k) a)
                  @ fragments (filter (\<lambda>(k, v). \<not> isDefaultKey k) a)"
    unfolding fragments_default_part by (rule fragments_split)
  show ?thesis
    using 3 fragments_custom_in_entries_order [of this a] Object_entries_plain [of a]
    by (simp add: joinedArgs_after_addArgument)
qed

text \<open>Two calls in a row, on objects none of whose keys is an array index.\<close>

theorem C7_fragment_order_witness:
  "build (after (addArgument (after (addArgument new_QueryBuilder
      [(''status'', JArr [JStr ''RUNNING'', JStr ''ERRONEOUS'']), (''subject'', JStr ''x''),
       (''skip'', JNum 2)]))
      [(''top'', JNum 10)]))
     = ''?$skip=2&status=RUNNING&status=ERRONEOUS&subject=x&$top=10''
   \<and> Object_entries [(''status'', JArr [JStr ''RUNNING'', JStr ''ERRONEOUS'']),
        (''subject'', JStr ''x''), (''skip'', JNum 2)]
     = [(''status'', JArr [JStr ''RUNNING'', JStr ''ERRONEOUS'']), (''subject'', JStr ''x''),
        (''skip'', JNum 2)]
   \<and> fragments (filter (\<lambda>(k, v). \<not> isDefaultKey k)
        [(''status'', JArr [JStr ''RUNNING'', JStr ''ERRONEOUS'']), (''subject'', JStr ''x''),
         (''skip'', JNum 2)])
     = concat (map (\<lambda>kv. fragments [kv])
         [(''status'', JArr [JStr ''RUNNING'', JStr ''ERRONEOUS'']), (''subject'', JStr ''x'')])"
proof -
  let ?a = "[(''status'', JArr [JStr ''RUNNING'', JStr ''ERRONEOUS'']), (''subject'', JStr ''x''),
       (''skip'', JNum 2)]"
  let ?b = "[(''top'', JNum 10)]"
  note t = C7_fragment_order [of new_QueryBuilder ?a ?b]
  have fa: "fragments ?a = [''$skip=2'', ''status=RUNNING'', ''status=ERRONEOUS'', ''subject=x'']"
    by (simp add: fragments_eq eval_simps)
  have fb: "fragments ?b = [''$top=10'']"
    by (simp add: fragments_eq eval_simps)
  have r: "\<not> raises (addArgument new_QueryBuilder ?a)"
    by (simp add: raises_addArgument eval_simps)
  have i: "\<forall>k \<in> fst ` set ?a. \<not> is_array_index k"
    by (simp add: is_array_index_def is_digit_def)
  have f: "filter (\<lambda>(k, v). \<not> isDefaultKey k) ?a
      = [(''status'', JArr [JStr ''RUNNING'', JStr ''ERRONEOUS'']), (''subject'', JStr ''x'')]"
    by (simp add: isDefaultKey_def DEFAULT_KEYS_def)
  have i': "\<forall>k \<in> fst ` set (filter (\<lambda>(k, v). \<not> isDefaultKey k) ?a). \<not> is_array_index k"
    unfolding f by (simp add: is_array_index_def is_digit_def)
  have 1: "joinedArgs (after (addArgument (after (addArgument new_QueryBuilder ?a)) ?b))
      = [''$skip=2'', ''status=RUNNING'', ''status=ERRONEOUS'', ''subject=x'', ''$top=10'']"
    using t by (simp add: fa fb new_QueryBuilder_def)
  have 2: "Object_entries ?a = ?a"
    using t i by blast
  have 3: "fragments (filter (\<lambda>(k, v). \<not> isDefaultKey k) ?a) =
      concat (map (\<lambda>kv. fragments [kv]) (Object_entries (filter (\<lambda>(k, v). \<not> isDefaultKey k) ?a)))"
    using t r by blast
  have 4: "Object_entries (filter (\<lambda>(k, v). \<not> isDefaultKey k) ?a)
      = filter (\<lambda>(k, v). \<not> isDefaultKey k) ?a"
    by (rule Object_entries_plain) (rule i')
  show ?thesis
    using 1 2 3 unfolding 4 unfolding f by (simp add: build_def)
qed

text \<open>
  A key that is an array index comes first, wherever it was written:
  \<open>{ b: "x", 1: "y" }\<close> gives \<open>?1=y&b=x\<close>, the fragment of the field written second before
  the fragment of the field written first.
\<close>

theorem C7_index_key_counterexample:
  "build (after (addArgument new_QueryBuilder [(''b'', JStr ''x''), (''1'', JStr ''y'')]))
     = ''?1=y&b=x''
   \<and> build (after (addArgument new_QueryBuilder [(''b'', JStr ''x'')])) = ''?b=x''
   \<and> build (after (addArgument new_QueryBuilder [(''1'', JStr ''y'')])) = ''?1=y''"
  by (simp add: joinedArgs_after_addArgument fragments_eq eval_simps build_def new_QueryBuilder_def)

text \<open>
  C8. After \<open>flush\<close>, whatever the builder held, \<open>build\<close> gives the empty string and
  \<open>getArguments\<close> the empty sequence.
\<close>

theorem C8_flush_clears:
  "build (flush this) = [] \<and> getArguments (flush this) = []"
  by (simp add: build_def flush_def getArguments_def)

text \<open>A builder that held one argument and one fragment.\<close>

theorem C8_flush_clears_witness:
  "build (flush (after (addArgument new_QueryBuilder [(''skip'', JNum 2)]))) = []
   \<and> getArguments (flush (after (addArgument new_QueryBuilder [(''skip'', JNum 2)]))) = []"
  using C8_flush_clears [of "after (addArgument new_QueryBuilder [(''skip'', JNum 2)])"]
  by simp

text \<open>
  C9. \<open>constructQuery\<close> gives the empty string for \<open>undefined\<close> and for \<open>null\<close>, a string
  unchanged (the empty one too), and for a builder what its \<open>build\<close> gives.
\<close>

theorem C9_constructQuery_cases:
  "constructQuery QUndefined = []
   \<and> constructQuery QNull = []
   \<and> constructQuery (QString s) = s
   \<and> constructQuery (QBuilder b) = build b"
  by simp

text \<open>A literal query, and a builder holding \<open>{ skip: 10 }\<close>.\<close>

theorem C9_constructQuery_cases_witness:
  "constructQuery (QString ''randomParameter=true'') = ''randomParameter=true''
   \<and> constructQuery (QBuilder (after (addArgument new_QueryBuilder [(''skip'', JNum 10)])))
       = ''?$skip=10''"
proof -
  have "build (after (addArgument new_QueryBuilder [(''skip'', JNum 10)])) = ''?$skip=10''"
    by (simp add: joinedArgs_after_addArgument fragments_eq eval_simps build_def new_QueryBuilder_def)
  then show ?thesis
    using C9_constructQuery_cases [of "''randomParameter=true''"
        "after (addArgument new_QueryBuilder [(''skip'', JNum 10)])"]
    by simp
qed

text \<open>
  C10. When \<open>expand\<close> is the empty sequence the call pushes the one fragment \<open>$expand=\<close> for
  it: the fragments are those of the same object without the field, with \<open>$expand=\<close>
  inserted. When \<open>expand\<close> is the empty string the fragments are those of the object
  without the field, and an empty sequence under a custom key pushes nothing.
\<close>

theorem C10_empty_expand_sequence:
  "(property arg ''expand'' = JArr [] \<longrightarrow>
      (\<exists>pre post.
         joinedArgs (after (addArgument this arg)) = joinedArgs this @ pre @ [''$expand=''] @ post
       \<and> joinedArgs (after (addArgument this (filter (\<lambda>(k, v). k \<noteq> ''expand'') arg)))
           = joinedArgs this @ pre @ post))
   \<and> (property arg ''expand'' = JStr [] \<longrightarrow>
        joinedArgs (after (addArgument this arg))
          = joinedArgs (after (addArgument this (filter (\<lambda>(k, v). k \<noteq> ''expand'') arg))))
   \<and> (\<not> isDefaultKey k \<longrightarrow>
        addArgument this [(k, JArr [])] = Inr (this\<lparr>arguments := arguments this @ [[(k, JArr [])]]\<rparr>))"
proof (intro conjI impI)
  assume e: "property arg ''expand'' = JArr []"
  let ?pre = "default_fragment ''$skip='' (property arg ''skip'')
      @ default_fragment ''$top='' (property arg ''top'')
      @ default_fragment ''$inlinecount='' (property arg ''inlinecount'')"
  let ?post = "default_fragment ''$orderBy='' (property arg ''orderBy'') @ fst (custom_trace arg)"
  have d: "default_fragment ''$expand='' (property arg ''expand'') = [''$expand='']"
    by (simp add: e default_fragment_def)
  have "joinedArgs (after (addArgument this arg)) = joinedArgs this @ ?pre @ [''$expand=''] @ ?post"
    unfolding joinedArgs_after_addArgument
    by (subst fragments_with_expand) (simp only: d)
  moreover have "joinedArgs (after (addArgument this (filter (\<lambda>(k, v). k \<noteq> ''expand'') arg)))
      = joinedArgs this @ ?pre @ ?post"
    unfolding joinedArgs_after_addArgument
    by (subst fragments_without_expand) (rule refl)
  ultimately show "\<exists>pre post.
         joinedArgs (after (addArgument this arg)) = joinedArgs this @ pre @ [''$expand=''] @ post
       \<and> joinedArgs (after (addArgument this (filter (\<lambda>(k, v). k \<noteq> ''expand'') arg)))
           = joinedArgs this @ pre @ post"
    by blast
next
  assume e: "property arg ''expand'' = JStr []"
  have d: "default_fragment ''$expand='' (property arg ''expand'') = []"
    by (simp add: e default_fragment_def)
  show "joinedArgs (after (addArgument this arg))
          = joinedArgs (after (addArgument this (filter (\<lambda>(k, v). k \<noteq> ''expand'') arg)))"
    unfolding joinedArgs_after_addArgument
    by (subst fragments_with_expand, subst fragments_without_expand) (simp only: d append_Nil)
next
  assume k: "\<not> isDefaultKey k"
  have "entry_trace (k, JArr []) = ([], None)"
    using k by (simp add: entry_trace_def array_trace_def)
  from addArgument_single [OF k this, of this]
  show "addArgument this [(k, JArr [])] = Inr (this\<lparr>arguments := arguments this @ [[(k, JArr [])]]\<rparr>)"
    by simp
qed

text \<open>
  The three cases side by side; the second line is the first fact of the theorem at
  \<open>{ top: 3, expand: [], orderBy: "id asc" }\<close>.
\<close>

theorem C10_empty_expand_sequence_witness:
  "joinedArgs (after (addArgument new_QueryBuilder
      [(''top'', JNum 3), (''expand'', JArr []), (''orderBy'', JStr ''id asc'')]))
     = [''$top=3'', ''$expand='', ''$orderBy=id asc'']
   \<and> (\<exists>pre post.
        joinedArgs (after (addArgument new_QueryBuilder
          [(''top'', JNum 3), (''expand'', JArr []), (''orderBy'', JStr ''id asc'')]))
          = pre @ [''$expand=''] @ post
      \<and> joinedArgs (after (addArgument new_QueryBuilder
          [(''top'', JNum 3), (''orderBy'', JStr ''id asc'')]))
          = pre @ post)
   \<and> joinedArgs (after (addArgument new_QueryBuilder
      [(''top'', JNum 3), (''expand'', JStr []), (''orderBy'', JStr ''id asc'')]))
     = [''$top=3'', ''$orderBy=id asc'']
   \<and> addArgument new_QueryBuilder [(''subject'', JArr [])]
     = Inr \<lparr>arguments = [[(''subject'', JArr [])]], joinedArgs = []\<rparr>"
proof -
  let ?a = "[(''top'', JNum 3), (''expand'', JArr []), (''orderBy'', JStr ''id asc'')]"
  let ?b = "[(''top'', JNum 3), (''expand'', JStr []), (''orderBy'', JStr ''id asc'')]"
  let ?c = "[(''top'', JNum 3), (''orderBy'', JStr ''id asc'')]"
  have ea: "property ?a ''expand'' = JArr []" and eb: "property ?b ''expand'' = JStr []"
    by (simp_all add: property_def)
  have fa: "filter (\<lambda>(k, v). k \<noteq> ''expand'') ?a = ?c"
    and fb: "filter (\<lambda>(k, v). k \<noteq> ''expand'') ?b = ?c"
    by simp_all
  have n: "joinedArgs new_QueryBuilder = []"
    by (simp add: new_QueryBuilder_def)
  have c: "joinedArgs (after (addArgument new_QueryBuilder ?c)) = [''$top=3'', ''$orderBy=id asc'']"
    by (simp add: joinedArgs_after_addArgument fragments_eq eval_simps n)
  have a: "joinedArgs (after (addArgument new_QueryBuilder ?a))
      = [''$top=3'', ''$expand='', ''$orderBy=id asc'']"
    by (simp add: joinedArgs_after_addArgument fragments_eq eval_simps n)
  have k: "\<not> isDefaultKey ''subject''"
    by (simp add: isDefaultKey_def DEFAULT_KEYS_def)
  note t = C10_empty_expand_sequence [of _ new_QueryBuilder]
  from t [of ?a, THEN conjunct1, rule_format, OF ea]
  have ex: "\<exists>pre post.
        joinedArgs (after (addArgument new_QueryBuilder ?a)) = pre @ [''$expand=''] @ post
      \<and> joinedArgs (after (addArgument new_QueryBuilder ?c)) = pre @ post"
    unfolding fa n append_Nil .
  from t [of ?b, THEN conjunct2, THEN conjunct1, rule_format, OF eb]
  have b: "joinedArgs (after (addArgument new_QueryBuilder ?b)) = [''$top=3'', ''$orderBy=id asc'']"
    unfolding fb c .
  from t [of _ "''subject''", THEN conjunct2, THEN conjunct2, rule_format, OF k]
  have s: "addArgument new_QueryBuilder [(''subject'', JArr [])]
      = Inr \<lparr>arguments = [[(''subject'', JArr [])]], joinedArgs = []\<rparr>"
    by (simp add: new_QueryBuilder_def)
  from a ex b s show ?thesis by blast
qed

end
